theory Spec2Isabelle
  imports Main "HOL-Library.AList" "HOL-Library.Multiset" "HOL-Library.Sublist"
begin

section \<open>JavaScript library operations used by the sources\<close>

text \<open>
  A JavaScript \<open>Map\<close> iterates over its entries in the order in which the keys were first
  set, so a \<open>Map\<close> is an association list with distinct keys: \<open>map_of\<close> is \<open>get\<close>,
  \<open>AList.update\<close> is \<open>set\<close> (an existing key keeps its place, a new key goes to the end)
  and \<open>AList.delete\<close> is \<open>delete\<close>.

  \<open>Array.prototype.sort\<close> with a comparator is a stable sort (ECMAScript 2019): an
  insertion sort that places an element before the first element it does not compare
  greater than, running over the array from its end, is such a sort.
\<close>

fun insort_cmp :: "('a \<Rightarrow> 'a \<Rightarrow> int) \<Rightarrow> 'a \<Rightarrow> 'a list \<Rightarrow> 'a list" where
  "insort_cmp cmp x [] = [x]"
| "insort_cmp cmp x (y # ys) =
     (if cmp x y \<le> 0 then x # y # ys else y # insort_cmp cmp x ys)"

definition js_sort :: "('a \<Rightarrow> 'a \<Rightarrow> int) \<Rightarrow> 'a list \<Rightarrow> 'a list" where
  "js_sort cmp xs = foldr (insort_cmp cmp) xs []"

text \<open>\<open>[...new Set(xs)]\<close>: the elements of \<open>xs\<close> in order of first occurrence.\<close>

definition js_set_of :: "'a list \<Rightarrow> 'a list" where
  "js_set_of xs = fold (\<lambda>x acc. if x \<in> set acc then acc else acc @ [x]) xs []"

text \<open>Decimal digits of a number, as a template literal prints them.\<close>

definition digit_char :: "nat \<Rightarrow> char" where
  "digit_char n = char_of (48 + n)"

function show_nat :: "nat \<Rightarrow> string" where
  "show_nat n = (if n < 10 then [digit_char n] else show_nat (n div 10) @ [digit_char (n mod 10)])"
  by pat_completeness auto
termination
  by (relation "measure (\<lambda>n. n)") auto

declare show_nat.simps [simp del]

text \<open>
  \<open>toLowerCase\<close> and the class \<open>\W\<close> on ASCII text. \<open>split_W\<close> is \<open>split(/\W+/)\<close>: the flag
  says that the previous character was a separator, so a run of separators splits once; a
  leading or trailing separator yields an empty word, as in JavaScript.
\<close>

definition lower_char :: "char \<Rightarrow> char" where
  "lower_char c = (let n = (of_char c :: nat) in if 65 \<le> n \<and> n \<le> 90 then char_of (n + 32) else c)"

definition toLowerCase :: "string \<Rightarrow> string" where
  "toLowerCase s = map lower_char s"

definition is_word_char :: "char \<Rightarrow> bool" where
  "is_word_char c = (let n = (of_char c :: nat) in
     (48 \<le> n \<and> n \<le> 57) \<or> (65 \<le> n \<and> n \<le> 90) \<or> n = 95 \<or> (97 \<le> n \<and> n \<le> 122))"

fun split_W :: "bool \<Rightarrow> string \<Rightarrow> string \<Rightarrow> string list" where
  "split_W insep cur [] = [cur]"
| "split_W insep cur (c # cs) =
     (if is_word_char c then split_W False (cur @ [c]) cs
      else if insep then split_W True cur cs
      else cur # split_W True [] cs)"


section \<open>The memory system (src/memory/MemorySystem.js)\<close>

subsection \<open>Data\<close>

text \<open>
  Perceived data is either a string, an object with a \<open>perceptions\<close> array of typed items,
  or any other value. An episode is the object \<open>storeEpisode\<close> receives; a missing \<open>id\<close> and
  the empty string are both falsy, and so are a missing \<open>timestamp\<close> and \<open>0\<close>, so the model
  writes the missing id as \<open>''''\<close> and the missing timestamp as \<open>0\<close>. The payloads and the
  topics can be absent (\<open>None\<close>); topics that are present are an array of strings, and the
  value of a perception is a string. Timestamps are milliseconds, as integers.
\<close>

record perception =
  ptype :: string
  pvalue :: string

datatype payload = Text string | Perceived "perception list" | Opaque nat

record episode =
  eid :: string
  timestamp :: int
  perceivedData :: "payload option"
  cognitiveResult :: "payload option"
  actionResult :: "payload option"
  topics :: "string list option"

record memory_system =
  workingMemory :: "(string \<times> payload \<times> nat) list"
  episodicMemory :: "episode list"
  episodicByDate :: "(int \<times> episode list) list"
  episodicByTopic :: "(string \<times> episode list) list"
  maxEpisodicMemory :: nat

text \<open>
  The constructor and \<open>initialize\<close>. The configuration is \<open>config.limits\<close> (absent: \<open>None\<close>)
  and in it \<open>episodicMemory\<close> (absent: \<open>None\<close>), a non-negative integer;
  \<open>config.limits.episodicMemory || this.maxEpisodicMemory\<close> keeps the default for every falsy
  limit.
\<close>

record limits =
  episodicMemoryLimit :: "nat option"

definition initialize :: "limits option \<Rightarrow> memory_system" where
  "initialize cfg =
     \<lparr> workingMemory = [],
       episodicMemory = [],
       episodicByDate = [],
       episodicByTopic = [],
       maxEpisodicMemory =
         (case cfg of
            None \<Rightarrow> 100
          | Some l \<Rightarrow>
              (case episodicMemoryLimit l of
                 None \<Rightarrow> 100
               | Some n \<Rightarrow> if n = 0 then 100 else n)) \<rparr>"

subsection \<open>Working memory\<close>

definition addToWorkingMemory :: "nat \<Rightarrow> string \<Rightarrow> payload \<Rightarrow> memory_system \<Rightarrow> memory_system" where
  "addToWorkingMemory now key v s = s\<lparr>workingMemory := AList.update key (v, now) (workingMemory s)\<rparr>"

definition getFromWorkingMemory :: "string \<Rightarrow> memory_system \<Rightarrow> payload option" where
  "getFromWorkingMemory key s =
     (case map_of (workingMemory s) key of None \<Rightarrow> None | Some (v, t) \<Rightarrow> Some v)"

subsection \<open>Topic extraction\<close>

definition stopwords :: "string list" where
  "stopwords =
     [''a'', ''an'', ''the'', ''and'', ''or'', ''but'', ''is'', ''are'', ''was'', ''were'', ''be'', ''have'', ''has'',
      ''had'', ''do'', ''does'', ''did'', ''to'', ''from'', ''in'', ''out'', ''on'', ''off'', ''over'', ''under'',
      ''again'', ''further'', ''then'', ''once'', ''here'', ''there'', ''when'', ''where'', ''why'', ''how'',
      ''all'', ''any'', ''both'', ''each'', ''few'', ''more'', ''most'', ''other'', ''some'', ''such'', ''no'',
      ''nor'', ''not'', ''only'', ''own'', ''same'', ''so'', ''than'', ''too'', ''very'', ''can'', ''will'', ''just'']"

definition keywords_of :: "string \<Rightarrow> string list" where
  "keywords_of text =
     filter (\<lambda>word. length word > 4 \<and> word \<notin> set stopwords) (split_W False [] (toLowerCase text))"

definition count_word :: "string \<Rightarrow> (string \<times> nat) list \<Rightarrow> (string \<times> nat) list" where
  "count_word word m = AList.update word ((case map_of m word of None \<Rightarrow> 0 | Some n \<Rightarrow> n) + 1) m"

definition keywordFrequency :: "string list \<Rightarrow> (string \<times> nat) list" where
  "keywordFrequency keywords = fold count_word keywords []"

definition extractKeywordsFromText :: "string \<Rightarrow> string list" where
  "extractKeywordsFromText text =
     map fst (take 5 (js_sort (\<lambda>a b. int (snd b) - int (snd a)) (keywordFrequency (keywords_of text))))"

text \<open>
  \<open>_extractTopics\<close> collects the keywords of a string, or of every text perception with a
  non-empty value, into one array and removes duplicates.
\<close>

definition extractTopics :: "payload \<Rightarrow> string list" where
  "extractTopics pd =
     js_set_of
       (case pd of
          Text t \<Rightarrow> extractKeywordsFromText t
        | Perceived ps \<Rightarrow>
            concat (map (\<lambda>p. if pvalue p \<noteq> [] then extractKeywordsFromText (pvalue p) else [])
                        (filter (\<lambda>p. ptype p = ''text'') ps))
        | Opaque _ \<Rightarrow> [])"

subsection \<open>The episodic store\<close>

text \<open>
  The day key is \<open>new Date(timestamp).setHours(0, 0, 0, 0)\<close>, the start of the local day in
  milliseconds; the host's time zone is taken to be UTC.
\<close>

definition dateKey :: "int \<Rightarrow> int" where
  "dateKey t = t - t mod 86400000"

text \<open>
  \<open>index_add\<close> is \<open>if (!index.has(k)) index.set(k, []); index.get(k).push(e)\<close>, and
  \<open>index_remove\<close> is the bucket update of \<open>_removeFromEpisodicIndexes\<close>: filter the bucket by
  id, then delete the key when the bucket is empty.
\<close>

definition bucket :: "('k \<times> 'v list) list \<Rightarrow> 'k \<Rightarrow> 'v list" where
  "bucket m k = (case map_of m k of None \<Rightarrow> [] | Some es \<Rightarrow> es)"

definition index_add :: "'k \<Rightarrow> 'v \<Rightarrow> ('k \<times> 'v list) list \<Rightarrow> ('k \<times> 'v list) list" where
  "index_add k e m = AList.update k (bucket m k @ [e]) m"

definition index_remove :: "'k \<Rightarrow> string \<Rightarrow> ('k \<times> episode list) list \<Rightarrow> ('k \<times> episode list) list" where
  "index_remove k rid m =
     (case map_of m k of
        None \<Rightarrow> m
      | Some es \<Rightarrow>
          (let episodes = filter (\<lambda>e. eid e \<noteq> rid) es
           in if episodes = [] then AList.delete k m else AList.update k episodes m))"

text \<open>
  \<open>_updateEpisodicIndexes\<close> may assign \<open>episode.topics\<close>. The episode is one object, shared
  by the ordered sequence and by every bucket, so the assignment shows in all of them:
  \<open>assignTopics\<close> is the object after the call, and it is this value that the sequence and
  the buckets hold.
\<close>

definition truthy_payload :: "payload option \<Rightarrow> bool" where
  "truthy_payload p = (case p of None \<Rightarrow> False | Some (Text t) \<Rightarrow> t \<noteq> [] | Some _ \<Rightarrow> True)"

definition assignTopics :: "episode \<Rightarrow> episode" where
  "assignTopics e =
     (case topics e of
        Some ts \<Rightarrow> e
      | None \<Rightarrow>
          (case perceivedData e of
             None \<Rightarrow> e
           | Some pd \<Rightarrow>
               if truthy_payload (Some pd)
               then (let extractedTopics = extractTopics pd
                     in if length extractedTopics > 0 then e\<lparr>topics := Some extractedTopics\<rparr> else e)
               else e))"

definition updateEpisodicIndexes :: "episode \<Rightarrow> memory_system \<Rightarrow> memory_system" where
  "updateEpisodicIndexes e s =
     (let e' = assignTopics e;
          dateIndex = index_add (dateKey (timestamp e)) e' (episodicByDate s);
          topicIndex =
            (case topics e of
               Some ts \<Rightarrow> fold (\<lambda>topic m. index_add topic e' m) ts (episodicByTopic s)
             | None \<Rightarrow>
                 (case topics e' of
                    Some extractedTopics \<Rightarrow>
                      fold (\<lambda>topic m. index_add topic e' m) extractedTopics (episodicByTopic s)
                  | None \<Rightarrow> episodicByTopic s))
      in s\<lparr>episodicByDate := dateIndex, episodicByTopic := topicIndex\<rparr>)"

definition removeFromEpisodicIndexes :: "episode \<Rightarrow> memory_system \<Rightarrow> memory_system" where
  "removeFromEpisodicIndexes e s =
     s\<lparr>episodicByDate := index_remove (dateKey (timestamp e)) (eid e) (episodicByDate s),
       episodicByTopic :=
         (case topics e of
            None \<Rightarrow> episodicByTopic s
          | Some ts \<Rightarrow> fold (\<lambda>topic m. index_remove topic (eid e) m) ts (episodicByTopic s))\<rparr>"

text \<open>
  \<open>storeEpisode\<close> in three parts: the assignments of id and timestamp (\<open>prepare\<close>, with the
  values \<open>Date.now()\<close> and \<open>Math.floor(Math.random() * 1000)\<close> as inputs), the push with the
  index update (\<open>insertEpisode\<close>), and the trim (\<open>trimEpisodes\<close>).
\<close>

definition prepare :: "nat \<Rightarrow> nat \<Rightarrow> episode \<Rightarrow> episode" where
  "prepare now rnd episode =
     (let e1 = (if eid episode = [] then episode\<lparr>eid := ''episode-'' @ show_nat now @ ''-'' @ show_nat rnd\<rparr>
                else episode);
          e2 = (if timestamp e1 = 0 then e1\<lparr>timestamp := int now\<rparr> else e1)
      in e2)"

definition stored :: "nat \<Rightarrow> nat \<Rightarrow> episode \<Rightarrow> episode" where
  "stored now rnd episode = assignTopics (prepare now rnd episode)"

definition insertEpisode :: "episode \<Rightarrow> memory_system \<Rightarrow> memory_system" where
  "insertEpisode e s =
     updateEpisodicIndexes e (s\<lparr>episodicMemory := episodicMemory s @ [assignTopics e]\<rparr>)"

definition trimEpisodes :: "memory_system \<Rightarrow> memory_system" where
  "trimEpisodes s =
     (if length (episodicMemory s) > maxEpisodicMemory s
      then (case episodicMemory s of
              [] \<Rightarrow> s
            | removed # rest \<Rightarrow> removeFromEpisodicIndexes removed (s\<lparr>episodicMemory := rest\<rparr>))
      else s)"

definition storeEpisode :: "nat \<Rightarrow> nat \<Rightarrow> episode \<Rightarrow> memory_system \<Rightarrow> string \<times> memory_system" where
  "storeEpisode now rnd episode s =
     (let e = prepare now rnd episode
      in (eid e, trimEpisodes (insertEpisode e s)))"


definition getRecentEpisodes :: "nat \<Rightarrow> memory_system \<Rightarrow> episode list" where
  "getRecentEpisodes n s =
     take n (js_sort (\<lambda>a b. timestamp b - timestamp a) (episodicMemory s))"


definition getEpisodesByTopic :: "string \<Rightarrow> memory_system \<Rightarrow> episode list" where
  "getEpisodesByTopic topic s = bucket (episodicByTopic s) topic"

text \<open>A sequence of \<open>storeEpisode\<close> calls, each with its clock value and random number.\<close>

type_synonym store_call = "nat \<times> nat \<times> episode"

definition store_all :: "store_call list \<Rightarrow> memory_system \<Rightarrow> memory_system" where
  "store_all calls s = fold (\<lambda>(now, rnd, e) s. snd (storeEpisode now rnd e s)) calls s"

definition stored_of :: "store_call \<Rightarrow> episode" where
  "stored_of c = (case c of (now, rnd, e) \<Rightarrow> stored now rnd e)"


subsection \<open>Index consistency\<close>

text \<open>
  The topics of a stored episode, the episodes reachable from each index, and the
  consistency of the indexes with the ordered sequence: both indexes hold exactly the
  stored episodes, each topic bucket holds exactly the stored episodes with that topic,
  and no bucket is empty. \<open>store_inv\<close> is the invariant behind it: ids are unique, each
  day bucket is the stored sequence filtered by day, in order.
\<close>

definition topic_set :: "episode \<Rightarrow> string set" where
  "topic_set e = (case topics e of None \<Rightarrow> {} | Some ts \<Rightarrow> set ts)"

definition store_inv :: "memory_system \<Rightarrow> bool" where
  "store_inv s \<longleftrightarrow>
     distinct (map eid (episodicMemory s))
   \<and> distinct (map fst (episodicByDate s))
   \<and> distinct (map fst (episodicByTopic s))
   \<and> (\<forall>k. bucket (episodicByDate s) k = filter (\<lambda>e. dateKey (timestamp e) = k) (episodicMemory s))
   \<and> (\<forall>t. set (bucket (episodicByTopic s) t) = {e \<in> set (episodicMemory s). t \<in> topic_set e})
   \<and> (\<forall>k. map_of (episodicByDate s) k \<noteq> Some [])
   \<and> (\<forall>t. map_of (episodicByTopic s) t \<noteq> Some [])"






subsection \<open>Example inputs\<close>

text \<open>An episode with an id and a timestamp and nothing else, and a limits object.\<close>

definition bare_episode :: "string \<Rightarrow> int \<Rightarrow> episode" where
  "bare_episode i t =
     \<lparr> eid = i, timestamp = t, perceivedData = None, cognitiveResult = None,
       actionResult = None, topics = None \<rparr>"

definition limit_of :: "nat \<Rightarrow> limits option" where
  "limit_of n = Some \<lparr> episodicMemoryLimit = Some n \<rparr>"

definition three_calls :: "store_call list" where
  "three_calls = [(10, 1, bare_episode ''e1'' 1), (20, 2, bare_episode ''e2'' 2), (30, 3, bare_episode ''e3'' 3)]"

definition falsy_limit :: "limits option \<Rightarrow> bool" where
  "falsy_limit cfg =
     (case cfg of
        None \<Rightarrow> True
      | Some l \<Rightarrow> (case episodicMemoryLimit l of None \<Rightarrow> True | Some n \<Rightarrow> n = 0))"



definition two_texts :: payload where
  "two_texts =
     Perceived [\<lparr> ptype = ''text'', pvalue = ''alpha bravo charlie delta echoes'' \<rparr>,
                \<lparr> ptype = ''text'', pvalue = ''foxtrot golfing hotel india juliet'' \<rparr>]"

definition two_text_episode :: episode where
  "two_text_episode = (bare_episode ''e1'' 1700000000001)\<lparr>perceivedData := Some two_texts\<rparr>"





section \<open>The event bus (src/core/EventBus.js)\<close>

text \<open>
  \<open>this.listeners\<close> maps an event name to an array of callbacks. Arrays are objects: \<open>on\<close>
  pushes onto the array that is there, \<open>off\<close> stores a new, filtered array, and \<open>emit\<close>
  iterates over the array it found when it started. The model therefore keeps the arrays in
  a store: \<open>listeners\<close> maps an event name to the address of its array, \<open>arrays\<close> maps an
  address to the array's elements, and \<open>next_addr\<close> is the next unused address. A callback is
  a reference to a function, compared by identity (\<open>cb !== callback\<close>). Event names are
  ordinary keys: the names that every JavaScript object inherits (such as \<open>constructor\<close>)
  are outside the model.

  Two fields record what cannot be read off the bus afterwards: \<open>invoked\<close> lists the calls
  \<open>callback(data)\<close> in the order they were made, and \<open>console\<close> lists the errors reported with
  \<open>console.error\<close>.
\<close>

type_synonym event = string
type_synonym callback = nat
type_synonym addr = nat

record 'd bus =
  listeners :: "event \<rightharpoonup> addr"
  arrays :: "addr \<Rightarrow> callback list"
  next_addr :: addr
  invoked :: "(callback \<times> 'd) list"
  console :: "(event \<times> string) list"

definition new_bus :: "'d bus" where
  "new_bus = \<lparr> listeners = Map.empty, arrays = (\<lambda>a. []), next_addr = 0, invoked = [], console = [] \<rparr>"

text \<open>
  \<open>on\<close> returns the closure \<open>() => this.off(event, callback)\<close>, which is determined by the
  event and the callback it captures.
\<close>

type_synonym handle = "event \<times> callback"

definition on :: "event \<Rightarrow> callback \<Rightarrow> 'd bus \<Rightarrow> handle \<times> 'd bus" where
  "on ev cb s =
     ((ev, cb),
      (case listeners s ev of
         None \<Rightarrow>
           s\<lparr>listeners := (listeners s)(ev \<mapsto> next_addr s),
             arrays := (arrays s)(next_addr s := [] @ [cb]),
             next_addr := Suc (next_addr s)\<rparr>
       | Some a \<Rightarrow> s\<lparr>arrays := (arrays s)(a := arrays s a @ [cb])\<rparr>))"

definition off :: "event \<Rightarrow> callback \<Rightarrow> 'd bus \<Rightarrow> 'd bus" where
  "off ev cb s =
     (case listeners s ev of
        None \<Rightarrow> s
      | Some a \<Rightarrow>
          s\<lparr>listeners := (listeners s)(ev \<mapsto> next_addr s),
            arrays := (arrays s)(next_addr s := filter (\<lambda>c. c \<noteq> cb) (arrays s a)),
            next_addr := Suc (next_addr s)\<rparr>)"


definition clear :: "'d bus \<Rightarrow> 'd bus" where
  "clear s = s\<lparr>listeners := Map.empty\<rparr>"








subsection \<open>The listener sequences, and what listeners do to them\<close>

text \<open>
  \<open>registered s ev\<close> is the listener sequence of an event. A bus is well formed when every
  array in use has been allocated and no two events share an array, as in every bus built
  by the operations above. \<open>thrown\<close> is the exception a listener body ends with.
  \<open>table_action\<close>, \<open>table_body\<close> and \<open>table_emit\<close> say what the actions, a listener body and
  the listeners of an emission do to the listener sequences.
\<close>

definition registered :: "'d bus \<Rightarrow> event \<Rightarrow> callback list" where
  "registered s ev = (case listeners s ev of None \<Rightarrow> [] | Some a \<Rightarrow> arrays s a)"












subsection \<open>Buses built by the operations\<close>





subsection \<open>Example buses and listeners\<close>









section \<open>The agent (src/core/Agent.js)\<close>

text \<open>
  The collaborators are the three systems the agent awaits: each takes a payload and either
  raises (\<open>Inl\<close> of an error message) or returns a payload. \<open>action_execute\<close> receives the
  cognitive result, of which the source passes the \<open>plan\<close>.

  An \<open>async\<close> function runs until its next \<open>await\<close> and is resumed when the awaited promise
  settles; nothing else runs in between. The agent's state therefore holds the suspended
  functions (\<open>awaiting\<close>): a \<open>process\<close> call waiting for perception, with the number of its
  caller; an instance of the \<open>perception:complete\<close> listener waiting for cognition; an
  instance of the \<open>cognition:complete\<close> listener waiting for the action. The last two carry
  nothing of the call that started them, as in the source.

  Of the event bus the state holds the listener array of \<open>cycle:complete\<close>: the listeners that
  \<open>process\<close> registers, each the closure of one caller's \<open>resolve\<close>, written as the caller's
  number. The three listeners of \<open>_setupEventListeners\<close> are fixed and appear as the functions
  \<open>on_perception_complete\<close>, \<open>on_cognition_complete\<close> and \<open>on_action_complete\<close>; listeners of
  outside observers are not modelled. The agent is initialized by its constructor.

  \<open>settled\<close> lists the calls of \<open>resolve\<close> and of the rejection of a caller's promise, in
  order; \<open>errorEvents\<close> lists the published \<open>error\<close> signals as phase and error; \<open>unhandled\<close>
  lists the rejections of listener promises, which nothing handles.
\<close>

record collaborators =
  perception_process :: "payload \<Rightarrow> string + payload"
  cognition_process :: "payload \<Rightarrow> string + payload"
  action_execute :: "payload \<Rightarrow> string + payload"

datatype task = AwaitPerception nat payload | AwaitCognition payload | AwaitAction payload

datatype outcome = Resolved episode | Rejected string

record agent =
  memorySystem :: memory_system
  completeListeners :: "nat list"
  awaiting :: "task list"
  callCount :: nat
  settled :: "(nat \<times> outcome) list"
  errorEvents :: "(string \<times> string) list"
  unhandled :: "string list"


text \<open>
  The emission of \<open>cycle:complete\<close> calls the listeners registered when it starts, in order
  (the event bus above); each is \<open>(result) => { unsubscribe(); resolve(result); }\<close>, with
  \<open>res\<close> for the result.
\<close>

definition complete_listener :: "episode \<Rightarrow> nat \<Rightarrow> agent \<Rightarrow> agent" where
  "complete_listener res p a =
     a\<lparr>completeListeners := filter (\<lambda>q. q \<noteq> p) (completeListeners a),
       settled := settled a @ [(p, Resolved res)]\<rparr>"

definition emit_cycle_complete :: "episode \<Rightarrow> agent \<Rightarrow> agent" where
  "emit_cycle_complete res a = fold (complete_listener res) (completeListeners a) a"

definition on_perception_complete :: "nat \<Rightarrow> payload \<Rightarrow> agent \<Rightarrow> agent" where
  "on_perception_complete now perceived a =
     a\<lparr>memorySystem := addToWorkingMemory now ''perceivedData'' perceived (memorySystem a),
       awaiting := awaiting a @ [AwaitCognition perceived]\<rparr>"

definition on_cognition_complete :: "nat \<Rightarrow> payload \<Rightarrow> agent \<Rightarrow> agent" where
  "on_cognition_complete now cognitive a =
     a\<lparr>memorySystem := addToWorkingMemory now ''cognitiveResult'' cognitive (memorySystem a),
       awaiting := awaiting a @ [AwaitAction cognitive]\<rparr>"

definition assemble :: "nat \<Rightarrow> payload \<Rightarrow> memory_system \<Rightarrow> episode" where
  "assemble now actionRes m =
     \<lparr> eid = [], timestamp = int now,
       perceivedData = getFromWorkingMemory ''perceivedData'' m,
       cognitiveResult = getFromWorkingMemory ''cognitiveResult'' m,
       actionResult = Some actionRes,
       topics = None \<rparr>"

definition on_action_complete :: "nat \<Rightarrow> nat \<Rightarrow> payload \<Rightarrow> agent \<Rightarrow> agent" where
  "on_action_complete now rnd actionRes a =
     (let episode = assemble now actionRes (memorySystem a);
          m = snd (storeEpisode now rnd episode (memorySystem a))
      in emit_cycle_complete (stored now rnd episode) (a\<lparr>memorySystem := m\<rparr>))"

text \<open>
  \<open>process_call\<close> is \<open>process\<close> up to its \<open>await\<close>. \<open>resume\<close> settles the \<open>k\<close>-th awaited
  promise and runs its function on: \<open>process\<close> either catches the error, publishes it with
  phase \<open>process\<close> and rejects its caller, or emits \<open>perception:complete\<close> and registers its
  \<open>cycle:complete\<close> listener; a listener either emits the next signal or ends in a rejection
  that nothing handles. The clock and the random number of the step are inputs.
\<close>

definition process_call :: "payload \<Rightarrow> agent \<Rightarrow> agent" where
  "process_call input a =
     a\<lparr>awaiting := awaiting a @ [AwaitPerception (callCount a) input], callCount := Suc (callCount a)\<rparr>"

definition resume_task :: "collaborators \<Rightarrow> nat \<Rightarrow> nat \<Rightarrow> task \<Rightarrow> agent \<Rightarrow> agent" where
  "resume_task coll now rnd t a =
     (case t of
        AwaitPerception p input \<Rightarrow>
          (case perception_process coll input of
             Inl err \<Rightarrow>
               a\<lparr>errorEvents := errorEvents a @ [(''process'', err)],
                 settled := settled a @ [(p, Rejected err)]\<rparr>
           | Inr perceived \<Rightarrow>
               (let a' = on_perception_complete now perceived a
                in a'\<lparr>completeListeners := completeListeners a' @ [p]\<rparr>))
      | AwaitCognition perceived \<Rightarrow>
          (case cognition_process coll perceived of
             Inl err \<Rightarrow> a\<lparr>unhandled := unhandled a @ [err]\<rparr>
           | Inr cognitive \<Rightarrow> on_cognition_complete now cognitive a)
      | AwaitAction cognitive \<Rightarrow>
          (case action_execute coll cognitive of
             Inl err \<Rightarrow> a\<lparr>unhandled := unhandled a @ [err]\<rparr>
           | Inr actionRes \<Rightarrow> on_action_complete now rnd actionRes a))"

definition resume :: "collaborators \<Rightarrow> nat \<times> nat \<Rightarrow> nat \<Rightarrow> agent \<Rightarrow> agent" where
  "resume coll tick k a =
     (if k < length (awaiting a)
      then resume_task coll (fst tick) (snd tick) (awaiting a ! k)
             (a\<lparr>awaiting := take k (awaiting a) @ drop (Suc k) (awaiting a)\<rparr>)
      else a)"

datatype sched = Call payload | Resume "nat \<times> nat" nat

fun step :: "collaborators \<Rightarrow> sched \<Rightarrow> agent \<Rightarrow> agent" where
  "step coll (Call input) a = process_call input a"
| "step coll (Resume tick k) a = resume coll tick k a"







subsection \<open>Example collaborators and schedules\<close>

definition tagging :: collaborators where
  "tagging =
     \<lparr> perception_process = (\<lambda>x. case x of Opaque n \<Rightarrow> Inr (Opaque (10 + n)) | _ \<Rightarrow> Inl ''malformed''),
       cognition_process = (\<lambda>x. case x of Opaque n \<Rightarrow> Inr (Opaque (100 + n)) | _ \<Rightarrow> Inl ''no analysis''),
       action_execute = (\<lambda>x. case x of Opaque n \<Rightarrow> Inr (Opaque (1000 + n)) | _ \<Rightarrow> Inl ''no plan'') \<rparr>"







section \<open>Properties of the library operations\<close>

lemma insort_cmp_key:
  "insort_cmp (\<lambda>a b. f b - f a) x ys = insort_key (\<lambda>e. - f e) x ys"
  by (induction ys) auto

lemma js_sort_key: "js_sort (\<lambda>a b. f b - f a) xs = sort_key (\<lambda>e. - (f e :: int)) xs"
  unfolding js_sort_def sort_key_def by (induction xs) (simp_all add: insort_cmp_key)

lemma length_js_sort: "length (js_sort (\<lambda>a b. f b - f a) xs) = length xs"
  by (simp add: js_sort_key)

lemma set_js_sort: "set (js_sort (\<lambda>a b. f b - f a) xs) = set xs"
  by (simp add: js_sort_key)

lemma mset_js_sort: "mset (js_sort (\<lambda>a b. f b - f a) xs) = mset xs"
  by (simp add: js_sort_key)

lemma sorted_desc_js_sort:
  "sorted_wrt (\<lambda>a b. f a \<ge> f b) (js_sort (\<lambda>a b. f b - f a) xs)"
proof -
  have "sorted (map (\<lambda>e. - f e) (sort_key (\<lambda>e. - f e) xs))"
    by (rule sorted_sort_key)
  then show ?thesis
    by (simp add: js_sort_key sorted_map)
qed

lemma stable_js_sort:
  "filter (\<lambda>e. f e = t) (js_sort (\<lambda>a b. f b - f a) xs) = filter (\<lambda>e. f e = t) xs"
proof -
  have "filter (\<lambda>e. - f e = - t) (sort_key (\<lambda>e. - f e) xs) = filter (\<lambda>e. - f e = - t) xs"
    by (rule sort_key_stable)
  then show ?thesis
    by (simp add: js_sort_key)
qed


section \<open>Recent episodes\<close>

text \<open>
  C5. \<open>getRecentEpisodes k\<close> is the first \<open>k\<close> elements of the one arrangement of the
  stored episodes that is ordered by descending timestamp and keeps episodes of equal
  timestamp in insertion order; its length is \<open>min k (store size)\<close>.
\<close>

theorem getRecentEpisodes_spec:
  "\<exists>L. getRecentEpisodes k s = take k L
      \<and> mset L = mset (episodicMemory s)
      \<and> sorted_wrt (\<lambda>a b. timestamp a \<ge> timestamp b) L
      \<and> (\<forall>t. filter (\<lambda>e. timestamp e = t) L = filter (\<lambda>e. timestamp e = t) (episodicMemory s))
      \<and> sorted_wrt (\<lambda>a b. timestamp a \<ge> timestamp b) (getRecentEpisodes k s)
      \<and> length (getRecentEpisodes k s) = min k (length (episodicMemory s))"
proof -
  let ?L = "js_sort (\<lambda>a b. timestamp b - timestamp a) (episodicMemory s)"
  have 1: "getRecentEpisodes k s = take k ?L"
    by (simp add: getRecentEpisodes_def)
  have 2: "mset ?L = mset (episodicMemory s)"
    by (rule mset_js_sort)
  have 3: "sorted_wrt (\<lambda>a b. timestamp a \<ge> timestamp b) ?L"
    by (rule sorted_desc_js_sort)
  have 4: "\<forall>t. filter (\<lambda>e. timestamp e = t) ?L = filter (\<lambda>e. timestamp e = t) (episodicMemory s)"
    by (simp add: stable_js_sort)
  have 5: "sorted_wrt (\<lambda>a b. timestamp a \<ge> timestamp b) (take k ?L)"
    using 3 by (rule sorted_wrt_take)
  have 6: "length (take k ?L) = min k (length (episodicMemory s))"
    by (simp add: length_js_sort min.commute)
  show ?thesis
    using 1 2 3 4 5 6 by metis
qed

section \<open>The store invariant\<close>

lemma bucket_index_add:
  "bucket (index_add k e m) k' = (if k' = k then bucket m k @ [e] else bucket m k')"
  by (simp add: bucket_def index_add_def update_conv')

lemma distinct_index_add:
  "distinct (map fst m) \<Longrightarrow> distinct (map fst (index_add k e m))"
  by (simp add: index_add_def distinct_update)

lemma nonempty_index_add:
  "map_of m k' \<noteq> Some [] \<Longrightarrow> map_of (index_add k e m) k' \<noteq> Some []"
  by (simp add: index_add_def update_conv')

lemma bucket_fold_index_add:
  "set (bucket (fold (\<lambda>t. index_add t e) ts m) k) = set (bucket m k) \<union> (if k \<in> set ts then {e} else {})"
  by (induction ts arbitrary: m) (auto simp: bucket_index_add)

lemma distinct_fold_index_add:
  "distinct (map fst m) \<Longrightarrow> distinct (map fst (fold (\<lambda>t. index_add t e) ts m))"
  by (induction ts arbitrary: m) (auto simp: distinct_index_add)

lemma nonempty_fold_index_add:
  "map_of m k' \<noteq> Some [] \<Longrightarrow> map_of (fold (\<lambda>t. index_add t e) ts m) k' \<noteq> Some []"
  by (induction ts arbitrary: m) (auto simp: nonempty_index_add)

lemma bucket_index_remove:
  "bucket (index_remove k rid m) k' =
     (if k' = k then filter (\<lambda>e. eid e \<noteq> rid) (bucket m k) else bucket m k')"
  by (auto simp: bucket_def index_remove_def Let_def update_conv' delete_conv' split: option.splits)

lemma distinct_index_remove:
  "distinct (map fst m) \<Longrightarrow> distinct (map fst (index_remove k rid m))"
  by (auto simp: index_remove_def Let_def distinct_update distinct_delete split: option.splits)

lemma nonempty_index_remove:
  "map_of m k' \<noteq> Some [] \<Longrightarrow> map_of (index_remove k rid m) k' \<noteq> Some []"
  by (auto simp: index_remove_def Let_def update_conv' delete_conv' split: option.splits)

lemma bucket_fold_index_remove:
  "bucket (fold (\<lambda>t. index_remove t rid) ts m) k =
     (if k \<in> set ts then filter (\<lambda>e. eid e \<noteq> rid) (bucket m k) else bucket m k)"
  by (induction ts arbitrary: m) (auto simp: bucket_index_remove)

lemma distinct_fold_index_remove:
  "distinct (map fst m) \<Longrightarrow> distinct (map fst (fold (\<lambda>t. index_remove t rid) ts m))"
  by (induction ts arbitrary: m) (auto simp: distinct_index_remove)

lemma nonempty_fold_index_remove:
  "map_of m k' \<noteq> Some [] \<Longrightarrow> map_of (fold (\<lambda>t. index_remove t rid) ts m) k' \<noteq> Some []"
  by (induction ts arbitrary: m) (auto simp: nonempty_index_remove)

lemma assignTopics_eid [simp]: "eid (assignTopics e) = eid e"
  by (simp add: assignTopics_def Let_def split: option.splits)

lemma assignTopics_timestamp [simp]: "timestamp (assignTopics e) = timestamp e"
  by (simp add: assignTopics_def Let_def split: option.splits)

lemma assignTopics_supplied: "topics e = Some ts \<Longrightarrow> assignTopics e = e"
  by (simp add: assignTopics_def)

lemma updateEpisodicIndexes_topics:
  "episodicByTopic (updateEpisodicIndexes e s) =
     (case topics (assignTopics e) of
        None \<Rightarrow> episodicByTopic s
      | Some ts \<Rightarrow> fold (\<lambda>t. index_add t (assignTopics e)) ts (episodicByTopic s))"
  by (cases "topics e") (simp_all add: updateEpisodicIndexes_def Let_def assignTopics_supplied)

lemma updateEpisodicIndexes_date:
  "episodicByDate (updateEpisodicIndexes e s) =
     index_add (dateKey (timestamp e)) (assignTopics e) (episodicByDate s)"
  by (simp add: updateEpisodicIndexes_def Let_def)

lemma updateEpisodicIndexes_other [simp]:
  "episodicMemory (updateEpisodicIndexes e s) = episodicMemory s"
  "maxEpisodicMemory (updateEpisodicIndexes e s) = maxEpisodicMemory s"
  "workingMemory (updateEpisodicIndexes e s) = workingMemory s"
  by (simp_all add: updateEpisodicIndexes_def Let_def)

lemma insertEpisode_fields:
  "episodicMemory (insertEpisode e s) = episodicMemory s @ [assignTopics e]"
  "maxEpisodicMemory (insertEpisode e s) = maxEpisodicMemory s"
  "workingMemory (insertEpisode e s) = workingMemory s"
  "episodicByDate (insertEpisode e s) =
     index_add (dateKey (timestamp e)) (assignTopics e) (episodicByDate s)"
  "episodicByTopic (insertEpisode e s) =
     (case topics (assignTopics e) of
        None \<Rightarrow> episodicByTopic s
      | Some ts \<Rightarrow> fold (\<lambda>t. index_add t (assignTopics e)) ts (episodicByTopic s))"
  by (simp_all add: insertEpisode_def updateEpisodicIndexes_topics updateEpisodicIndexes_date
        split: option.splits)

lemma store_inv_insertEpisode:
  assumes "store_inv s" and "eid e \<notin> eid ` set (episodicMemory s)"
  shows "store_inv (insertEpisode e s)"
proof -
  let ?e = "assignTopics e"
  have d1: "distinct (map eid (episodicMemory (insertEpisode e s)))"
    using assms by (simp add: insertEpisode_fields store_inv_def)
  have d2: "distinct (map fst (episodicByDate (insertEpisode e s)))"
    using assms(1) by (simp add: insertEpisode_fields store_inv_def distinct_index_add)
  have d3: "distinct (map fst (episodicByTopic (insertEpisode e s)))"
    using assms(1)
    by (simp add: insertEpisode_fields store_inv_def distinct_fold_index_add split: option.splits)
  have b1: "bucket (episodicByDate (insertEpisode e s)) k =
      filter (\<lambda>x. dateKey (timestamp x) = k) (episodicMemory (insertEpisode e s))" for k
    using assms(1) by (simp add: insertEpisode_fields store_inv_def bucket_index_add)
  have b2: "set (bucket (episodicByTopic (insertEpisode e s)) t) =
      {x \<in> set (episodicMemory (insertEpisode e s)). t \<in> topic_set x}" for t
    using assms(1)
    by (auto simp: insertEpisode_fields store_inv_def bucket_fold_index_add topic_set_def
             split: option.splits)
  have n1: "map_of (episodicByDate (insertEpisode e s)) k \<noteq> Some []" for k
    using assms(1) by (simp add: insertEpisode_fields store_inv_def nonempty_index_add)
  have n2: "map_of (episodicByTopic (insertEpisode e s)) t \<noteq> Some []" for t
    using assms(1)
    by (simp add: insertEpisode_fields store_inv_def nonempty_fold_index_add split: option.splits)
  show ?thesis
    unfolding store_inv_def using d1 d2 d3 b1 b2 n1 n2 by blast
qed

lemma removeFromEpisodicIndexes_fields:
  "episodicMemory (removeFromEpisodicIndexes r s) = episodicMemory s"
  "maxEpisodicMemory (removeFromEpisodicIndexes r s) = maxEpisodicMemory s"
  "workingMemory (removeFromEpisodicIndexes r s) = workingMemory s"
  "episodicByDate (removeFromEpisodicIndexes r s) =
     index_remove (dateKey (timestamp r)) (eid r) (episodicByDate s)"
  "episodicByTopic (removeFromEpisodicIndexes r s) =
     (case topics r of
        None \<Rightarrow> episodicByTopic s
      | Some ts \<Rightarrow> fold (\<lambda>t. index_remove t (eid r)) ts (episodicByTopic s))"
  by (simp_all add: removeFromEpisodicIndexes_def)

lemma filter_evicted:
  assumes "eid r \<notin> eid ` set rest"
  shows "filter (\<lambda>e. eid e \<noteq> eid r) (filter P (r # rest)) = filter P rest"
proof -
  have "filter (\<lambda>e. eid e \<noteq> eid r) (filter P rest) = filter P rest"
    using assms by (induction rest) auto
  then show ?thesis by simp
qed

lemma store_inv_evict:
  assumes "store_inv s" and "episodicMemory s = r # rest"
  shows "store_inv (removeFromEpisodicIndexes r (s\<lparr>episodicMemory := rest\<rparr>))"
proof -
  let ?s = "removeFromEpisodicIndexes r (s\<lparr>episodicMemory := rest\<rparr>)"
  have fresh: "eid r \<notin> eid ` set rest"
    using assms by (auto simp: store_inv_def)
  have d1: "distinct (map eid (episodicMemory ?s))"
    using assms by (simp add: removeFromEpisodicIndexes_fields store_inv_def)
  have d2: "distinct (map fst (episodicByDate ?s))"
    using assms(1) by (simp add: removeFromEpisodicIndexes_fields store_inv_def distinct_index_remove)
  have d3: "distinct (map fst (episodicByTopic ?s))"
    using assms(1)
    by (simp add: removeFromEpisodicIndexes_fields store_inv_def distinct_fold_index_remove
             split: option.splits)
  have b1: "bucket (episodicByDate ?s) k = filter (\<lambda>x. dateKey (timestamp x) = k) (episodicMemory ?s)" for k
  proof -
    have old: "bucket (episodicByDate s) k = filter (\<lambda>x. dateKey (timestamp x) = k) (r # rest)"
      using assms by (simp add: store_inv_def)
    show ?thesis
    proof (cases "k = dateKey (timestamp r)")
      case True
      have "filter (\<lambda>e. eid e \<noteq> eid r) (filter (\<lambda>x. dateKey (timestamp x) = k) (r # rest))
              = filter (\<lambda>x. dateKey (timestamp x) = k) rest"
        using fresh by (rule filter_evicted)
      then show ?thesis
        using True old by (simp add: removeFromEpisodicIndexes_fields bucket_index_remove)
    next
      case False
      then show ?thesis
        using old by (simp add: removeFromEpisodicIndexes_fields bucket_index_remove)
    qed
  qed
  have b2: "set (bucket (episodicByTopic ?s) t) = {x \<in> set (episodicMemory ?s). t \<in> topic_set x}" for t
  proof -
    have old: "set (bucket (episodicByTopic s) t) = {x \<in> set (r # rest). t \<in> topic_set x}"
      using assms by (simp add: store_inv_def)
    have other: "x \<in> set rest \<Longrightarrow> eid x \<noteq> eid r" for x
      using fresh by (metis imageI)
    show ?thesis
    proof (cases "topics r")
      case None
      then have "t \<notin> topic_set r" by (simp add: topic_set_def)
      then show ?thesis
        using None old by (auto simp: removeFromEpisodicIndexes_fields)
    next
      case (Some ts)
      then have ts: "topic_set r = set ts" by (simp add: topic_set_def)
      show ?thesis
      proof (cases "t \<in> set ts")
        case True
        then show ?thesis
          using Some old other
          by (auto simp: removeFromEpisodicIndexes_fields bucket_fold_index_remove)
      next
        case False
        then show ?thesis
          using Some old ts
          by (auto simp: removeFromEpisodicIndexes_fields bucket_fold_index_remove)
      qed
    qed
  qed
  have n1: "map_of (episodicByDate ?s) k \<noteq> Some []" for k
    using assms(1) by (simp add: removeFromEpisodicIndexes_fields store_inv_def nonempty_index_remove)
  have n2: "map_of (episodicByTopic ?s) t \<noteq> Some []" for t
    using assms(1)
    by (simp add: removeFromEpisodicIndexes_fields store_inv_def nonempty_fold_index_remove
             split: option.splits)
  show ?thesis
    unfolding store_inv_def using d1 d2 d3 b1 b2 n1 n2 by blast
qed

lemma store_inv_trimEpisodes: "store_inv s \<Longrightarrow> store_inv (trimEpisodes s)"
  by (auto simp: trimEpisodes_def store_inv_evict split: list.splits)

lemma alist_entry_bucket:
  "distinct (map fst m) \<Longrightarrow> (k, es) \<in> set m \<longleftrightarrow> map_of m k = Some es"
  by (auto dest: map_of_SomeD)



lemma store_inv_initialize: "store_inv (initialize cfg)"
  by (simp add: store_inv_def initialize_def bucket_def)

lemma trimEpisodes_fields:
  "episodicMemory (trimEpisodes s) =
     (if length (episodicMemory s) > maxEpisodicMemory s then tl (episodicMemory s) else episodicMemory s)"
  "maxEpisodicMemory (trimEpisodes s) = maxEpisodicMemory s"
  "workingMemory (trimEpisodes s) = workingMemory s"
  by (simp_all add: trimEpisodes_def removeFromEpisodicIndexes_fields split: list.splits)

lemma storeEpisode_fields:
  "episodicMemory (snd (storeEpisode now rnd e s)) =
     (if length (episodicMemory s) + 1 > maxEpisodicMemory s
      then tl (episodicMemory s @ [stored now rnd e])
      else episodicMemory s @ [stored now rnd e])"
  "maxEpisodicMemory (snd (storeEpisode now rnd e s)) = maxEpisodicMemory s"
  "workingMemory (snd (storeEpisode now rnd e s)) = workingMemory s"
  "fst (storeEpisode now rnd e s) = eid (stored now rnd e)"
  by (simp_all add: storeEpisode_def Let_def trimEpisodes_fields insertEpisode_fields stored_def)

lemma store_inv_storeEpisode:
  assumes "store_inv s" and "eid (stored now rnd e) \<notin> eid ` set (episodicMemory s)"
  shows "store_inv (snd (storeEpisode now rnd e s))"
  using assms
  by (simp add: storeEpisode_def Let_def stored_def store_inv_trimEpisodes store_inv_insertEpisode)

lemma store_all_snoc:
  "store_all (calls @ [c]) s = snd (storeEpisode (fst c) (fst (snd c)) (snd (snd c)) (store_all calls s))"
  by (simp add: store_all_def split: prod.splits)

lemma stored_of_conv: "stored_of c = stored (fst c) (fst (snd c)) (snd (snd c))"
  by (simp add: stored_of_def split: prod.splits)

lemma store_all_max [simp]: "maxEpisodicMemory (store_all calls s) = maxEpisodicMemory s"
  by (induction calls rule: rev_induct) (simp_all add: store_all_snoc storeEpisode_fields, simp add: store_all_def)

lemma store_all_snoc_memory:
  "episodicMemory (store_all (calls @ [c]) s) =
     (if length (episodicMemory (store_all calls s)) + 1 > maxEpisodicMemory s
      then tl (episodicMemory (store_all calls s) @ [stored_of c])
      else episodicMemory (store_all calls s) @ [stored_of c])"
  by (simp add: store_all_snoc storeEpisode_fields stored_of_conv)

lemma drop_snoc_step:
  assumes "m = drop (length xs - cap) xs"
  shows "(if length m + 1 > cap then tl (m @ [x]) else m @ [x]) = drop (length (xs @ [x]) - cap) (xs @ [x])"
proof (cases "length xs < cap")
  case True
  then show ?thesis using assms by simp
next
  case False
  define d where "d = length xs - cap"
  have len: "length m = cap" using False assms by simp
  have suc: "length (xs @ [x]) - cap = Suc d"
    using False by (simp add: d_def Suc_diff_le)
  have "drop (Suc d) (xs @ [x]) = tl (drop d (xs @ [x]))"
    by (simp only: drop_Suc tl_drop)
  also have "drop d (xs @ [x]) = drop d xs @ [x]"
    by (simp add: d_def)
  finally have "tl (m @ [x]) = drop (length (xs @ [x]) - cap) (xs @ [x])"
    using assms suc by (simp add: d_def)
  then show ?thesis using len by simp
qed

lemma store_all_memory:
  "episodicMemory (store_all calls (initialize cfg)) =
     drop (length calls - maxEpisodicMemory (initialize cfg)) (map stored_of calls)"
proof (induction calls rule: rev_induct)
  case Nil
  then show ?case by (simp add: store_all_def initialize_def)
next
  case (snoc c calls)
  let ?s = "store_all calls (initialize cfg)"
  let ?cap = "maxEpisodicMemory (initialize cfg)"
  have m: "episodicMemory ?s = drop (length (map stored_of calls) - ?cap) (map stored_of calls)"
    using snoc by simp
  have step: "episodicMemory (store_all (calls @ [c]) (initialize cfg)) =
      (if length (episodicMemory ?s) + 1 > ?cap then tl (episodicMemory ?s @ [stored_of c])
       else episodicMemory ?s @ [stored_of c])"
    by (simp add: store_all_snoc_memory)
  have "\<dots> = drop (length (map stored_of calls @ [stored_of c]) - ?cap)
                     (map stored_of calls @ [stored_of c])"
    by (rule drop_snoc_step [OF m])
  then show ?case using step by simp
qed

lemma store_all_inv:
  assumes "distinct (map (eid \<circ> stored_of) calls)"
  shows "store_inv (store_all calls (initialize cfg))"
  using assms
proof (induction calls rule: rev_induct)
  case Nil
  then show ?case by (simp add: store_all_def store_inv_initialize)
next
  case (snoc c calls)
  let ?s = "store_all calls (initialize cfg)"
  have inv: "store_inv ?s" using snoc by simp
  have "set (episodicMemory ?s) \<subseteq> stored_of ` set calls"
    using set_drop_subset [of _ "map stored_of calls"] by (simp add: store_all_memory)
  moreover have "eid (stored_of c) \<notin> eid ` stored_of ` set calls"
    using snoc.prems by (auto simp: image_iff)
  ultimately have "eid (stored_of c) \<notin> eid ` set (episodicMemory ?s)" by blast
  then show ?case
    using inv by (simp add: store_all_snoc store_inv_storeEpisode stored_of_conv)
qed







lemma stored_bare [simp]: "i \<noteq> [] \<Longrightarrow> t \<noteq> 0 \<Longrightarrow> stored now rnd (bare_episode i t) = bare_episode i t"
  by (simp add: stored_def prepare_def assignTopics_def bare_episode_def)

lemma three_calls_stored:
  "map stored_of three_calls = [bare_episode ''e1'' 1, bare_episode ''e2'' 2, bare_episode ''e3'' 3]"
  by (simp add: three_calls_def stored_of_def)



section \<open>Eviction and index consistency\<close>







section \<open>The default capacity\<close>

lemma initialize_falsy: "falsy_limit cfg \<Longrightarrow> maxEpisodicMemory (initialize cfg) = 100"
  by (auto simp: falsy_limit_def initialize_def split: option.splits)

lemma initialize_nonzero: "maxEpisodicMemory (initialize cfg) \<noteq> 0"
  by (auto simp: initialize_def split: option.splits)

text \<open>
  C10. When the configured limit is absent or falsy (\<open>0\<close> in particular) the capacity is the
  default 100; no configuration yields capacity zero; and the first 100 insertions into such
  a store evict nothing: the sequence holds every stored episode.
\<close>

theorem falsy_limit_default:
  assumes "falsy_limit cfg"
  shows "maxEpisodicMemory (initialize cfg) = 100
     \<and> (\<forall>cfg'. maxEpisodicMemory (initialize cfg') \<noteq> 0)
     \<and> (\<forall>calls. length calls \<le> 100 \<longrightarrow>
           episodicMemory (store_all calls (initialize cfg)) = map stored_of calls)"
proof -
  have cap: "maxEpisodicMemory (initialize cfg) = 100"
    using assms by (rule initialize_falsy)
  have "episodicMemory (store_all calls (initialize cfg)) = map stored_of calls"
    if "length calls \<le> 100" for calls
    using that by (simp add: store_all_memory cap)
  then show ?thesis using cap initialize_nonzero by blast
qed

theorem falsy_limit_default_witness:
  "falsy_limit (limit_of 0)
   \<and> maxEpisodicMemory (initialize (limit_of 0)) = 100
   \<and> episodicMemory (store_all three_calls (initialize (limit_of 0))) =
       [bare_episode ''e1'' 1, bare_episode ''e2'' 2, bare_episode ''e3'' 3]"
proof -
  have f: "falsy_limit (limit_of 0)" by (simp add: falsy_limit_def limit_of_def)
  have l: "length three_calls \<le> 100" by (simp add: three_calls_def)
  show ?thesis
    using f l falsy_limit_default [OF f] by (simp add: three_calls_stored)
qed


section \<open>The date-range query\<close>








section \<open>Derived topics\<close>

lemma js_set_of_fold:
  "distinct acc \<Longrightarrow>
     distinct (fold (\<lambda>x acc. if x \<in> set acc then acc else acc @ [x]) xs acc)
   \<and> set (fold (\<lambda>x acc. if x \<in> set acc then acc else acc @ [x]) xs acc) = set acc \<union> set xs
   \<and> length (fold (\<lambda>x acc. if x \<in> set acc then acc else acc @ [x]) xs acc) \<le> length acc + length xs"
proof (induction xs arbitrary: acc)
  case Nil
  then show ?case by simp
next
  case (Cons x xs)
  show ?case
  proof (cases "x \<in> set acc")
    case True
    then show ?thesis using Cons.IH [of acc] Cons.prems by auto
  next
    case False
    then show ?thesis using Cons.IH [of "acc @ [x]"] Cons.prems by auto
  qed
qed

lemma js_set_of_props:
  "distinct (js_set_of xs)" "set (js_set_of xs) = set xs" "length (js_set_of xs) \<le> length xs"
  using js_set_of_fold [of "[]" xs] by (simp_all add: js_set_of_def)

lemma js_set_of_fold_distinct:
  "distinct (acc @ xs) \<Longrightarrow> fold (\<lambda>x acc. if x \<in> set acc then acc else acc @ [x]) xs acc = acc @ xs"
  by (induction xs arbitrary: acc) auto

lemma js_set_of_distinct: "distinct xs \<Longrightarrow> js_set_of xs = xs"
  using js_set_of_fold_distinct [of "[]" xs] by (simp add: js_set_of_def)

lemma count_word_map_of:
  "map_of (count_word w m) v =
     (if v = w then Some ((case map_of m w of None \<Rightarrow> 0 | Some n \<Rightarrow> n) + 1) else map_of m v)"
  by (simp add: count_word_def update_conv')

lemma fold_count_word_map_of:
  "map_of (fold count_word ks m) w =
     (if w \<in> set ks then Some ((case map_of m w of None \<Rightarrow> 0 | Some n \<Rightarrow> n) + count_list ks w)
      else map_of m w)"
  by (induction ks arbitrary: m) (auto simp: count_word_map_of)

lemma distinct_fold_count_word:
  "distinct (map fst m) \<Longrightarrow> distinct (map fst (fold count_word ks m))"
  by (induction ks arbitrary: m) (auto simp: count_word_def distinct_update)

lemma keywordFrequency_distinct: "distinct (map fst (keywordFrequency ks))"
  by (simp add: keywordFrequency_def distinct_fold_count_word)

lemma keywordFrequency_entry:
  "(w, n) \<in> set (keywordFrequency ks) \<longleftrightarrow> w \<in> set ks \<and> n = count_list ks w"
proof -
  have "(w, n) \<in> set (keywordFrequency ks) \<longleftrightarrow> map_of (keywordFrequency ks) w = Some n"
    using keywordFrequency_distinct by (rule alist_entry_bucket)
  then show ?thesis
    by (auto simp: keywordFrequency_def fold_count_word_map_of)
qed

lemma keywordFrequency_keys: "set (map fst (keywordFrequency ks)) = set ks"
proof
  show "set (map fst (keywordFrequency ks)) \<subseteq> set ks"
    using keywordFrequency_entry [of _ _ ks] by auto
  show "set ks \<subseteq> set (map fst (keywordFrequency ks))"
  proof
    fix w assume "w \<in> set ks"
    then have "(w, count_list ks w) \<in> set (keywordFrequency ks)"
      by (simp add: keywordFrequency_entry)
    then show "w \<in> set (map fst (keywordFrequency ks))" by force
  qed
qed

lemma keywordFrequency_length: "length (keywordFrequency ks) = card (set ks)"
proof -
  have "card (set (map fst (keywordFrequency ks))) = length (map fst (keywordFrequency ks))"
    using keywordFrequency_distinct by (rule distinct_card)
  then show ?thesis by (simp only: keywordFrequency_keys) simp
qed


lemma extractKeywordsFromText_props:
  fixes str :: string
  defines "ks \<equiv> keywords_of str"
  defines "r \<equiv> extractKeywordsFromText str"
  shows "length r = min 5 (card (set ks))"
    and "distinct r"
    and "set r \<subseteq> set ks"
    and "\<And>w v. w \<in> set r \<Longrightarrow> v \<in> set ks \<Longrightarrow> v \<notin> set r \<Longrightarrow> count_list ks v \<le> count_list ks w"
    and "sorted_wrt (\<lambda>a b. count_list ks a \<ge> count_list ks b) r"
proof -
  let ?kf = "keywordFrequency ks"
  let ?L = "js_sort (\<lambda>a b. int (snd b) - int (snd a)) ?kf"
  have r: "r = map fst (take 5 ?L)"
    by (simp add: r_def ks_def extractKeywordsFromText_def)
  have setL: "set ?L = set ?kf" by (rule set_js_sort)
  have msetL: "mset ?L = mset ?kf" by (rule mset_js_sort)
  have lenL: "length ?L = length ?kf" by (rule length_js_sort)
  have sortedL: "sorted_wrt (\<lambda>a b. int (snd a) \<ge> int (snd b)) ?L" by (rule sorted_desc_js_sort)
  have entry: "p \<in> set ?L \<Longrightarrow> fst p \<in> set ks \<and> snd p = count_list ks (fst p)" for p
    using keywordFrequency_entry [of "fst p" "snd p" ks] by (simp add: setL)
  have "mset (map fst ?L) = mset (map fst ?kf)"
    using msetL by (metis mset_map)
  then have distL: "distinct (map fst ?L)"
    using keywordFrequency_distinct [of ks] by (metis mset_eq_imp_distinct_iff)
  show "length r = min 5 (card (set ks))"
    by (simp add: r lenL keywordFrequency_length min.commute)
  show "distinct r"
    using distinct_take [OF distL, of 5] by (simp add: r take_map)
  have entry5: "fst p \<in> set ks \<and> snd p = count_list ks (fst p)" if "p \<in> set (take 5 ?L)" for p
    by (rule entry) (rule in_set_takeD [OF that])
  show "set r \<subseteq> set ks"
  proof
    fix w assume "w \<in> set r"
    then obtain p where "p \<in> set (take 5 ?L)" "w = fst p" unfolding r by auto
    then show "w \<in> set ks" using entry5 [of p] by simp
  qed
  have split: "sorted_wrt (\<lambda>a b. int (snd a) \<ge> int (snd b)) (take 5 ?L @ drop 5 ?L)"
    using sortedL by simp
  show "count_list ks v \<le> count_list ks w" if w: "w \<in> set r" and v: "v \<in> set ks" and nv: "v \<notin> set r" for w v
  proof -
    obtain p where p: "p \<in> set (take 5 ?L)" "w = fst p" using w unfolding r by auto
    then have pc: "snd p = count_list ks w" using entry5 [of p] by simp
    have "(v, count_list ks v) \<in> set ?L" using v by (simp add: setL keywordFrequency_entry)
    then have "(v, count_list ks v) \<in> set (take 5 ?L) \<union> set (drop 5 ?L)"
      by (metis append_take_drop_id set_append)
    moreover have "(v, count_list ks v) \<notin> set (take 5 ?L)"
    proof
      assume "(v, count_list ks v) \<in> set (take 5 ?L)"
      then have "fst (v, count_list ks v) \<in> fst ` set (take 5 ?L)" by (rule imageI)
      then show False using nv unfolding r by simp
    qed
    ultimately have q: "(v, count_list ks v) \<in> set (drop 5 ?L)" by blast
    have "int (snd p) \<ge> int (snd (v, count_list ks v))"
      using split p(1) q unfolding sorted_wrt_append by blast
    then show ?thesis using pc by simp
  qed
  have "sorted_wrt (\<lambda>a b. int (snd a) \<ge> int (snd b)) (take 5 ?L)"
    using sortedL by (rule sorted_wrt_take)
  then have "sorted_wrt (\<lambda>a b. count_list ks (fst a) \<ge> count_list ks (fst b)) (take 5 ?L)"
  proof (rule sorted_wrt_mono_rel [rotated])
    fix a b assume "a \<in> set (take 5 ?L)" "b \<in> set (take 5 ?L)" "int (snd a) \<ge> int (snd b)"
    then show "count_list ks (fst a) \<ge> count_list ks (fst b)"
      using entry5 [of a] entry5 [of b] by simp
  qed
  then show "sorted_wrt (\<lambda>a b. count_list ks a \<ge> count_list ks b) r"
    by (simp add: r sorted_wrt_map)
qed

lemma keywords_of_props:
  "w \<in> set (keywords_of text) \<longleftrightarrow>
     w \<in> set (split_W False [] (toLowerCase text)) \<and> length w > 4 \<and> w \<notin> set stopwords"
  by (auto simp: keywords_of_def)

lemma extractKeywordsFromText_empty: "extractKeywordsFromText [] = []"
  by (simp add: extractKeywordsFromText_def keywords_of_def toLowerCase_def keywordFrequency_def js_sort_def)

lemma extractTopics_Text: "extractTopics (Text t) = extractKeywordsFromText t"
  by (simp add: extractTopics_def js_set_of_distinct extractKeywordsFromText_props(2))

lemma length_concat_bound:
  "(\<And>x. x \<in> set xs \<Longrightarrow> length (g x) \<le> n) \<Longrightarrow> length (concat (map g xs)) \<le> n * length xs"
  by (induction xs) (auto simp: add_le_mono)

lemma extractTopics_Perceived:
  "set (extractTopics (Perceived ps)) =
     (\<Union>p \<in> {p \<in> set ps. ptype p = ''text''}. set (extractKeywordsFromText (pvalue p)))"
  "length (extractTopics (Perceived ps)) \<le> 5 * length (filter (\<lambda>p. ptype p = ''text'') ps)"
proof -
  let ?g = "\<lambda>p. if pvalue p \<noteq> [] then extractKeywordsFromText (pvalue p) else []"
  have g: "?g p = extractKeywordsFromText (pvalue p)" for p :: perception
    by (simp add: extractKeywordsFromText_empty)
  show "set (extractTopics (Perceived ps)) =
     (\<Union>p \<in> {p \<in> set ps. ptype p = ''text''}. set (extractKeywordsFromText (pvalue p)))"
    by (auto simp: extractTopics_def js_set_of_props(2) extractKeywordsFromText_empty)
  have "length (?g p) \<le> 5" for p :: perception
    using extractKeywordsFromText_props(1) [of "pvalue p"] by (simp add: g)
  then have "length (concat (map ?g (filter (\<lambda>p. ptype p = ''text'') ps)))
               \<le> 5 * length (filter (\<lambda>p. ptype p = ''text'') ps)"
    by (intro length_concat_bound)
  then show "length (extractTopics (Perceived ps)) \<le> 5 * length (filter (\<lambda>p. ptype p = ''text'') ps)"
    using js_set_of_props(3) [of "concat (map ?g (filter (\<lambda>p. ptype p = ''text'') ps))"]
    by (simp add: extractTopics_def)
qed

lemma stored_topic_set:
  assumes "topics e = None" and "perceivedData e = Some pd"
  shows "topic_set (stored now rnd e) = set (extractTopics pd)"
proof -
  have p: "topics (prepare now rnd e) = None" "perceivedData (prepare now rnd e) = Some pd"
    using assms by (simp_all add: prepare_def Let_def)
  have empty: "extractTopics (Text []) = []"
    by (simp add: extractTopics_Text extractKeywordsFromText_empty)
  show ?thesis
  proof (cases "truthy_payload (Some pd)")
    case True
    then show ?thesis
      using p by (auto simp: stored_def assignTopics_def topic_set_def Let_def)
  next
    case False
    then have "pd = Text []"
      by (cases pd) (auto simp: truthy_payload_def)
    then show ?thesis
      using p False by (simp add: stored_def assignTopics_def topic_set_def empty)
  qed
qed


lemma last_call_retained:
  "stored now rnd e \<in> set (episodicMemory (store_all (calls @ [(now, rnd, e)]) (initialize cfg)))"
proof -
  let ?cap = "maxEpisodicMemory (initialize cfg)"
  have cap: "?cap \<noteq> 0" by (rule initialize_nonzero)
  have "drop (length (calls @ [(now, rnd, e)]) - ?cap) (map stored_of (calls @ [(now, rnd, e)]))
          = drop (Suc (length calls) - ?cap) (map stored_of calls) @ [stored now rnd e]"
    using cap by (simp add: stored_of_def)
  then show ?thesis
    by (simp only: store_all_memory) simp
qed

text \<open>
  C8 (amended). An episode is stored without topics and with perceived data, after any calls,
  all ids different. Then its topics are the extracted ones and it is indexed under exactly
  these. For a string they are its keywords; for perceptions they are the union of the
  keywords of the text items, at most 5 for each text item. The keywords of a text are
  \<open>min 5 n\<close> distinct words of the lower-cased text, \<open>n\<close> the number of its different
  candidate words: each longer than 4, none a stopword, none less frequent than a candidate
  left out, in order of descending frequency.
\<close>

theorem derived_topics:
  assumes ids: "distinct (map (eid \<circ> stored_of) (calls @ [(now, rnd, e)]))"
      and none: "topics e = None"
      and pd: "perceivedData e = Some pd"
  shows "topic_set (stored now rnd e) = set (extractTopics pd)
    \<and> (\<forall>t. stored now rnd e \<in> set (getEpisodesByTopic t (store_all (calls @ [(now, rnd, e)]) (initialize cfg)))
           \<longleftrightarrow> t \<in> set (extractTopics pd))
    \<and> (\<forall>str. pd = Text str \<longrightarrow> extractTopics pd = extractKeywordsFromText str)
    \<and> (\<forall>ps. pd = Perceived ps \<longrightarrow>
           set (extractTopics pd) =
             (\<Union>p \<in> {p \<in> set ps. ptype p = ''text''}. set (extractKeywordsFromText (pvalue p)))
         \<and> length (extractTopics pd) \<le> 5 * length (filter (\<lambda>p. ptype p = ''text'') ps))
    \<and> (\<forall>str. length (extractKeywordsFromText str) = min 5 (card (set (keywords_of str)))
         \<and> distinct (extractKeywordsFromText str)
         \<and> (\<forall>w \<in> set (extractKeywordsFromText str).
               w \<in> set (split_W False [] (toLowerCase str)) \<and> length w > 4 \<and> w \<notin> set stopwords
             \<and> (\<forall>v \<in> set (keywords_of str). v \<notin> set (extractKeywordsFromText str) \<longrightarrow>
                   count_list (keywords_of str) v \<le> count_list (keywords_of str) w))
         \<and> sorted_wrt (\<lambda>a b. count_list (keywords_of str) a \<ge> count_list (keywords_of str) b)
                       (extractKeywordsFromText str))"
proof -
  let ?s = "store_all (calls @ [(now, rnd, e)]) (initialize cfg)"
  let ?e = "stored now rnd e"
  have 1: "topic_set ?e = set (extractTopics pd)"
    using none pd by (rule stored_topic_set)
  have inv: "store_inv ?s" using ids by (rule store_all_inv)
  have mem: "?e \<in> set (episodicMemory ?s)" by (rule last_call_retained)
  have "set (getEpisodesByTopic t ?s) = {x \<in> set (episodicMemory ?s). t \<in> topic_set x}" for t
    using inv by (simp add: store_inv_def getEpisodesByTopic_def)
  then have 2: "?e \<in> set (getEpisodesByTopic t ?s) \<longleftrightarrow> t \<in> set (extractTopics pd)" for t
    using mem 1 by simp
  have 3: "pd = Text str \<longrightarrow> extractTopics pd = extractKeywordsFromText str" for str
    by (simp add: extractTopics_Text)
  have 4: "pd = Perceived ps \<longrightarrow>
           set (extractTopics pd) =
             (\<Union>p \<in> {p \<in> set ps. ptype p = ''text''}. set (extractKeywordsFromText (pvalue p)))
         \<and> length (extractTopics pd) \<le> 5 * length (filter (\<lambda>p. ptype p = ''text'') ps)" for ps
    using extractTopics_Perceived [of ps] by blast
  have 5: "length (extractKeywordsFromText str) = min 5 (card (set (keywords_of str)))
         \<and> distinct (extractKeywordsFromText str)
         \<and> (\<forall>w \<in> set (extractKeywordsFromText str).
               w \<in> set (split_W False [] (toLowerCase str)) \<and> length w > 4 \<and> w \<notin> set stopwords
             \<and> (\<forall>v \<in> set (keywords_of str). v \<notin> set (extractKeywordsFromText str) \<longrightarrow>
                   count_list (keywords_of str) v \<le> count_list (keywords_of str) w))
         \<and> sorted_wrt (\<lambda>a b. count_list (keywords_of str) a \<ge> count_list (keywords_of str) b)
                       (extractKeywordsFromText str)" for str
  proof -
    have w: "w \<in> set (split_W False [] (toLowerCase str)) \<and> length w > 4 \<and> w \<notin> set stopwords"
      if "w \<in> set (extractKeywordsFromText str)" for w
    proof -
      have "w \<in> set (keywords_of str)"
        using that extractKeywordsFromText_props(3) [of str] by (rule subsetD [rotated])
      then show ?thesis using keywords_of_props [of w str] by blast
    qed
    show ?thesis
      using extractKeywordsFromText_props(1,2,5) [of str] extractKeywordsFromText_props(4) [of _ str] w
      by blast
  qed
  show ?thesis
    using 1 2 3 4 5 by blast
qed

theorem derived_topics_witness:
  "topic_set (stored 5 7 two_text_episode) = set (extractTopics two_texts)
"
proof -
  have h1: "distinct (map (eid \<circ> stored_of) ([] @ [(5, 7, two_text_episode)]))" by simp
  have h2: "topics two_text_episode = None" by (simp add: two_text_episode_def bare_episode_def)
  have h3: "perceivedData two_text_episode = Some two_texts"
    by (simp add: two_text_episode_def bare_episode_def)
  show ?thesis
    using derived_topics [OF h1 h2 h3, of None] by (rule conjunct1)
qed

text \<open>
  C8 as stated fails: perceived data with two text items, five keywords each, gives the
  stored episode ten topics, and ten topic buckets.
\<close>

theorem derived_topics_counterexample:
  "topics two_text_episode = None
   \<and> topics (stored 5 7 two_text_episode) =
       Some [''alpha'', ''bravo'', ''charlie'', ''delta'', ''echoes'',
             ''foxtrot'', ''golfing'', ''hotel'', ''india'', ''juliet'']
   \<and> map fst (episodicByTopic (snd (storeEpisode 5 7 two_text_episode (initialize None)))) =
       [''alpha'', ''bravo'', ''charlie'', ''delta'', ''echoes'',
        ''foxtrot'', ''golfing'', ''hotel'', ''india'', ''juliet'']
   \<and> length (extractTopics two_texts) = 10"
proof -
  have 1: "topics two_text_episode = None"
    by (simp add: two_text_episode_def bare_episode_def)
  have 2: "topics (stored 5 7 two_text_episode) =
       Some [''alpha'', ''bravo'', ''charlie'', ''delta'', ''echoes'',
             ''foxtrot'', ''golfing'', ''hotel'', ''india'', ''juliet'']"
    by code_simp
  have 3: "map fst (episodicByTopic (snd (storeEpisode 5 7 two_text_episode (initialize None)))) =
       [''alpha'', ''bravo'', ''charlie'', ''delta'', ''echoes'',
        ''foxtrot'', ''golfing'', ''hotel'', ''india'', ''juliet'']"
    by code_simp
  have 4: "length (extractTopics two_texts) = 10"
    by code_simp
  show ?thesis using 1 2 3 4 by simp
qed


section \<open>Effects of the bus operations\<close>













lemma log_on [simp]:
  "invoked (snd (on ev cb s)) = invoked s" "console (snd (on ev cb s)) = console s"
  by (cases "listeners s ev"; simp add: on_def)+

lemma log_off [simp]:
  "invoked (off ev cb s) = invoked s" "console (off ev cb s) = console s"
  by (cases "listeners s ev"; simp add: off_def)+

lemma log_clear [simp]:
  "invoked (clear s) = invoked s" "console (clear s) = console s"
  by (simp_all add: clear_def)









lemma registered_new_bus: "registered new_bus ev = []"
  by (simp add: registered_def new_bus_def)







section \<open>Emission\<close>







section \<open>Subscribing and unsubscribing\<close>





section \<open>One cycle of the agent\<close>


lemma addToWorkingMemory_fields [simp]:
  "episodicMemory (addToWorkingMemory now k v m) = episodicMemory m"
  "maxEpisodicMemory (addToWorkingMemory now k v m) = maxEpisodicMemory m"
  "episodicByDate (addToWorkingMemory now k v m) = episodicByDate m"
  "episodicByTopic (addToWorkingMemory now k v m) = episodicByTopic m"
  by (simp_all add: addToWorkingMemory_def)















lemma tagging_facts:
  "perception_process tagging (Opaque n) = Inr (Opaque (10 + n))"
  "cognition_process tagging (Opaque n) = Inr (Opaque (100 + n))"
  "action_execute tagging (Opaque n) = Inr (Opaque (1000 + n))"
  by (simp_all add: tagging_def)


section \<open>Settling the caller\<close>







section \<open>Two cycles\<close>





end
